theory Spec2Isabelle
  imports Main "HOL-Library.Multiset" "HOL-Library.Sublist"
begin

section \<open>The NBA MVP calculator (\<^verbatim>\<open>nba_mvp.py\<close>)\<close>

text \<open>
  The script has three functions and a main block. \<^verbatim>\<open>get_player_stats\<close> turns the rows
  of two HTML tables into a list of dictionaries of strings, \<^verbatim>\<open>filter_players\<close> keeps
  the dictionaries whose name matches a regular expression, and \<^verbatim>\<open>calculate_mvp\<close>
  sorts the list twice and reads the first three entries of the second sort.

  Every exception the script can raise is a value of \<open>error\<close>; a function that can raise
  returns \<open>error + 'a\<close>, with \<open>Inl\<close> for the exception.

  Four built-ins of Python decide what the script computes on text and on floating-point
  numbers: \<^verbatim>\<open>float\<close>, \<^verbatim>\<open>sum\<close>, \<^verbatim>\<open>str.strip\<close> and the regular expressions of \<^verbatim>\<open>re\<close>. They are
  not code of the script, and each is a parameter of the functions below: \<open>pf\<close>,
  \<open>py_sum\<close>, \<open>strp\<close> and \<open>eng\<close>. What is proved holds for every value of the
  parameters, so for the interpreter's; a hypothesis on a parameter is written out where
  one is needed.
\<close>

subsection \<open>Exceptions\<close>

datatype error =
    ValueError    \<comment> \<open>\<^verbatim>\<open>float(s)\<close> on a string that is not a number\<close>
  | IndexError    \<comment> \<open>\<^verbatim>\<open>xs[i]\<close> with \<^verbatim>\<open>i >= len(xs)\<close>\<close>
  | ReError       \<comment> \<open>\<^verbatim>\<open>re.error\<close>: the pattern is not a regular expression\<close>

subsection \<open>The player dictionary\<close>

text \<open>
  Lines 42 to 49 build every dictionary with the same six keys, in this order, and every
  value is a string (the stripped text of a table cell). The record has one field per key;
  \<open>keys\<close> and \<open>getitem\<close> give the dictionary view that line 71 iterates over. The script
  subscripts a dictionary with these six keys only, so \<open>getitem\<close> has no \<^verbatim>\<open>KeyError\<close>.
\<close>

record player =
  Player :: string
  Points :: string
  Field_Goal_Percentage :: string
  Three_Point_Percentage :: string
  Rebounds :: string
  Assists :: string

definition keys :: "player \<Rightarrow> string list" where
  "keys p = [''Player'', ''Points'', ''Field Goal Percentage'',
             ''Three Point Percentage'', ''Rebounds'', ''Assists'']"

definition getitem :: "player \<Rightarrow> string \<Rightarrow> string" where
  "getitem p key =
     (if key = ''Player'' then Player p
      else if key = ''Points'' then Points p
      else if key = ''Field Goal Percentage'' then Field_Goal_Percentage p
      else if key = ''Three Point Percentage'' then Three_Point_Percentage p
      else if key = ''Rebounds'' then Rebounds p
      else Assists p)"

subsection \<open>Built-ins of Python the script calls\<close>

text \<open>
  \<^verbatim>\<open>float\<close> is the parameter \<open>pf\<close>: \<open>pf s = None\<close> when \<^verbatim>\<open>float(s)\<close> raises
  \<^verbatim>\<open>ValueError\<close>, and \<open>pf s = Some v\<close> when it returns \<open>v\<close>. The values live in a type
  with a linear order: that of the floating-point numbers other than NaN, with \<open>0.0\<close> and
  \<open>-0.0\<close> identified.
\<close>

definition float_of :: "(string \<Rightarrow> 'v option) \<Rightarrow> string \<Rightarrow> error + 'v" where
  "float_of pf s = (case pf s of None \<Rightarrow> Inl ValueError | Some v \<Rightarrow> Inr v)"

text \<open>\<^verbatim>\<open>xs[i]\<close> for a literal index \<open>i \<ge> 0\<close>.\<close>

definition py_index :: "'a list \<Rightarrow> nat \<Rightarrow> error + 'a" where
  "py_index xs i = (if i < length xs then Inr (xs ! i) else Inl IndexError)"

text \<open>
  \<^verbatim>\<open>xs[:n]\<close> for an integer \<open>n\<close>: a negative \<open>n\<close> counts from the end, and the bound is
  clipped to the list.
\<close>

definition slice_to :: "int \<Rightarrow> 'a list \<Rightarrow> 'a list" where
  "slice_to n xs = (if 0 \<le> n then take (nat n) xs else take (nat (int (length xs) + n)) xs)"

text \<open>
  \<open>map_keys f xs\<close> applies \<open>f\<close> to the items of \<open>xs\<close> in order, and the first exception
  ends it.

  \<^verbatim>\<open>sorted(xs, key=key, reverse=True)\<close>. The keys are computed once, in list order, and
  an exception of the key function leaves \<^verbatim>\<open>sorted\<close>. The list of pairs of key and item
  is then reversed, sorted ascending by key with a stable sort, and reversed again:
  this is how the interpreter keeps a reverse sort stable.
\<close>

fun map_keys :: "('a \<Rightarrow> error + 'k) \<Rightarrow> 'a list \<Rightarrow> error + 'k list" where
  "map_keys key [] = Inr []"
| "map_keys key (x # xs) =
     (case key x of
        Inl e \<Rightarrow> Inl e
      | Inr k \<Rightarrow> (case map_keys key xs of Inl e \<Rightarrow> Inl e | Inr ks \<Rightarrow> Inr (k # ks)))"

definition sorted_reverse :: "('a \<Rightarrow> error + 'k::linorder) \<Rightarrow> 'a list \<Rightarrow> error + 'a list" where
  "sorted_reverse key xs =
     (case map_keys key xs of
        Inl e \<Rightarrow> Inl e
      | Inr ks \<Rightarrow> Inr (map snd (rev (sort_key fst (rev (zip ks xs))))))"

text \<open>
  \<^verbatim>\<open>sum(float(s) for s in ss)\<close>. The generator yields the numbers in order and the first
  \<^verbatim>\<open>ValueError\<close> ends the sum; otherwise the result is the built-in \<^verbatim>\<open>sum\<close> of the numbers,
  the parameter \<open>py_sum\<close>. How \<^verbatim>\<open>sum\<close> adds and rounds is the interpreter's business (a
  plain addition from the left up to CPython 3.11, a compensated summation from 3.12),
  and nothing is assumed about it.
\<close>

definition sum_floats ::
  "(string \<Rightarrow> 'v option) \<Rightarrow> ('v list \<Rightarrow> 'v) \<Rightarrow> string list \<Rightarrow> error + 'v" where
  "sum_floats pf py_sum ss =
     (case map_keys (float_of pf) ss of Inl e \<Rightarrow> Inl e | Inr vs \<Rightarrow> Inr (py_sum vs))"

subsection \<open>\<^verbatim>\<open>calculate_mvp\<close> (lines 54 to 76)\<close>

text \<open>The two key functions, the lambdas of lines 68 and 71.\<close>

definition points_key :: "(string \<Rightarrow> 'v option) \<Rightarrow> player \<Rightarrow> error + 'v" where
  "points_key pf p = float_of pf (getitem p ''Points'')"

definition overall_key ::
  "(string \<Rightarrow> 'v option) \<Rightarrow> ('v list \<Rightarrow> 'v) \<Rightarrow> player \<Rightarrow> error + 'v" where
  "overall_key pf py_sum p =
     sum_floats pf py_sum (map (getitem p) (filter (\<lambda>key. key \<noteq> ''Player'') (keys p)))"

text \<open>The local variables of the function, each as the source computes it.\<close>

definition sorted_players_by_points ::
  "(string \<Rightarrow> 'v::linorder option) \<Rightarrow> player list \<Rightarrow> error + player list" where
  "sorted_players_by_points pf player_stats = sorted_reverse (points_key pf) player_stats"

definition sorted_players_by_overall ::
  "(string \<Rightarrow> 'v::linorder option) \<Rightarrow> ('v list \<Rightarrow> 'v) \<Rightarrow> player list
     \<Rightarrow> error + player list" where
  "sorted_players_by_overall pf py_sum player_stats =
     sorted_reverse (overall_key pf py_sum) player_stats"

definition top_players ::
  "(string \<Rightarrow> 'v::linorder option) \<Rightarrow> player list \<Rightarrow> int \<Rightarrow> error + player list" where
  "top_players pf player_stats top_count =
     (case sorted_players_by_points pf player_stats of
        Inl e \<Rightarrow> Inl e
      | Inr by_points \<Rightarrow> Inr (slice_to top_count by_points))"

definition calculate_mvp ::
  "(string \<Rightarrow> 'v::linorder option) \<Rightarrow> ('v list \<Rightarrow> 'v) \<Rightarrow> player list \<Rightarrow> int
     \<Rightarrow> error + (player list \<times> player \<times> player \<times> player)" where
  "calculate_mvp pf py_sum player_stats top_count =
     (case top_players pf player_stats top_count of
        Inl e \<Rightarrow> Inl e
      | Inr tops \<Rightarrow>
          (case sorted_players_by_overall pf py_sum player_stats of
             Inl e \<Rightarrow> Inl e
           | Inr by_overall \<Rightarrow>
               (case py_index by_overall 0 of
                  Inl e \<Rightarrow> Inl e
                | Inr best_player \<Rightarrow>
                    (case py_index by_overall 1 of
                       Inl e \<Rightarrow> Inl e
                     | Inr second_place \<Rightarrow>
                         (case py_index by_overall 2 of
                            Inl e \<Rightarrow> Inl e
                          | Inr third_place \<Rightarrow>
                              Inr (tops, best_player, second_place, third_place))))))"

subsection \<open>\<^verbatim>\<open>get_player_stats\<close> (lines 7 to 51)\<close>

text \<open>
  The page and its parser are outside the program. What the loop of line 26 reads from
  them is, for each row of the names table, the text of its first \<^verbatim>\<open>AnchorLink\<close> anchor
  (\<open>None\<close> when the row has none), and for each row of the statistics table the texts of
  its \<^verbatim>\<open>td\<close> cells. The two list arguments of \<open>get_player_stats\<close> are the lists of \<^verbatim>\<open>tr\<close>
  rows of the two tables, header row included.

  \<^verbatim>\<open>str.strip()\<close> is the parameter \<open>strp\<close>: which characters are white space is Unicode's
  business, and nothing is assumed about it.

  The loop body has the list \<^verbatim>\<open>player_stats\<close> and the lines printed so far as its state.
  An exception leaves the loop with the lines printed before it.
\<close>

fun rows_loop ::
  "(string \<Rightarrow> string) \<Rightarrow> (string option \<times> string list) list \<Rightarrow> player list \<Rightarrow> string list
     \<Rightarrow> (error + player list) \<times> string list" where
  "rows_loop strp [] player_stats out = (Inr player_stats, out)"
| "rows_loop strp ((name_row, columns) # rest) player_stats out =
     (let player_name = (case name_row of Some text \<Rightarrow> strp text | None \<Rightarrow> ''N/A'') in
      if length columns < 9 then
        rows_loop strp rest player_stats (out @ [''Invalid row, skipping...''])
      else
        (case py_index columns 3 of
           Inl e \<Rightarrow> (Inl e, out)
         | Inr points \<Rightarrow>
        (case py_index columns 6 of
           Inl e \<Rightarrow> (Inl e, out)
         | Inr field_goal_percentage \<Rightarrow>
        (case py_index columns 9 of
           Inl e \<Rightarrow> (Inl e, out)
         | Inr three_point_percentage \<Rightarrow>
        (case py_index columns 13 of
           Inl e \<Rightarrow> (Inl e, out)
         | Inr rebounds \<Rightarrow>
        (case py_index columns 14 of
           Inl e \<Rightarrow> (Inl e, out)
         | Inr assists \<Rightarrow>
             rows_loop strp rest
               (player_stats @
                 [\<lparr>Player = player_name,
                   Points = strp points,
                   Field_Goal_Percentage = strp field_goal_percentage,
                   Three_Point_Percentage = strp three_point_percentage,
                   Rebounds = strp rebounds,
                   Assists = strp assists\<rparr>])
               out))))))"

definition get_player_stats ::
  "(string \<Rightarrow> string) \<Rightarrow> string option list \<Rightarrow> string list list
     \<Rightarrow> (error + player list) \<times> string list" where
  "get_player_stats strp names_table_rows stats_table_rows =
     (let name_rows = drop 1 names_table_rows;
          stat_rows = stats_table_rows
      in rows_loop strp (zip name_rows (drop 1 stat_rows)) [] [])"

subsection \<open>\<^verbatim>\<open>filter_players\<close> (lines 79 to 96)\<close>

text \<open>
  The regular-expression engine is the parameter \<open>eng\<close>. \<open>eng pat flags\<close> stands for
  \<^verbatim>\<open>re.compile(pat, flags)\<close>: it is \<open>None\<close> when the pattern does not compile
  (\<^verbatim>\<open>re.error\<close>), and otherwise \<open>Some m\<close>, where \<open>m s i\<close> says whether the compiled pattern
  matches in \<open>s\<close> starting at position \<open>i\<close> (what \<^verbatim>\<open>match(s, i)\<close> of the compiled pattern
  finds). The only flag the script uses is \<^verbatim>\<open>re.IGNORECASE\<close>.

  \<^verbatim>\<open>re.search\<close> scans the string for a position where the pattern matches, the end of the
  string included (where an empty match is possible); \<^verbatim>\<open>re.match\<close> would try position 0
  only. The script tests the result for truth, and a match object is always true.
\<close>

datatype re_flag = IGNORECASE

type_synonym regex_engine = "string \<Rightarrow> re_flag list \<Rightarrow> (string \<Rightarrow> nat \<Rightarrow> bool) option"

definition re_search :: "regex_engine \<Rightarrow> string \<Rightarrow> string \<Rightarrow> re_flag list \<Rightarrow> error + bool" where
  "re_search eng pat s flags =
     (case eng pat flags of
        None \<Rightarrow> Inl ReError
      | Some m \<Rightarrow> Inr (list_ex (m s) [0 ..< Suc (length s)]))"

fun filter_loop ::
  "regex_engine \<Rightarrow> string \<Rightarrow> player list \<Rightarrow> player list \<Rightarrow> error + player list" where
  "filter_loop eng regex_pattern [] filtered_stats = Inr filtered_stats"
| "filter_loop eng regex_pattern (player # rest) filtered_stats =
     (case re_search eng regex_pattern (getitem player ''Player'') [IGNORECASE] of
        Inl e \<Rightarrow> Inl e
      | Inr found \<Rightarrow>
          if found
          then filter_loop eng regex_pattern rest (filtered_stats @ [player])
          else filter_loop eng regex_pattern rest filtered_stats)"

definition filter_players :: "regex_engine \<Rightarrow> player list \<Rightarrow> string \<Rightarrow> error + player list" where
  "filter_players eng player_stats regex_pattern = filter_loop eng regex_pattern player_stats []"

subsection \<open>The main block (lines 99 to 149)\<close>

text \<open>
  \<^verbatim>\<open>--top\<close> is an integer with default 5, \<^verbatim>\<open>--pattern\<close> a string whose default is the
  empty string; an option that is absent has its default.
\<close>

record args =
  args_top :: int
  args_pattern :: string

definition parse_args :: "int option \<Rightarrow> string option \<Rightarrow> args" where
  "parse_args top_opt pattern_opt =
     \<lparr>args_top = (case top_opt of None \<Rightarrow> 5 | Some n \<Rightarrow> n),
      args_pattern = (case pattern_opt of None \<Rightarrow> [] | Some s \<Rightarrow> s)\<rparr>"

text \<open>Lines 107 and 108: an empty string is false, and then the filter is not called.\<close>

definition main_filter :: "regex_engine \<Rightarrow> player list \<Rightarrow> args \<Rightarrow> error + player list" where
  "main_filter eng stats a =
     (if args_pattern a \<noteq> [] then filter_players eng stats (args_pattern a) else Inr stats)"

text \<open>The seven lines printed for one player, and the report of lines 112 to 149.\<close>

definition player_lines :: "player \<Rightarrow> string list" where
  "player_lines p =
     [''Player: '' @ getitem p ''Player'',
      ''Points: '' @ getitem p ''Points'',
      ''Field Goal Percentage: '' @ getitem p ''Field Goal Percentage'',
      ''Three Point Percentage: '' @ getitem p ''Three Point Percentage'',
      ''Rebounds: '' @ getitem p ''Rebounds'',
      ''Assists: '' @ getitem p ''Assists'',
      ''------------------------'']"

definition report :: "player list \<times> player \<times> player \<times> player \<Rightarrow> string list" where
  "report r =
     (case r of (tops, best_player, second_place, third_place) \<Rightarrow>
        [''Top Players:''] @ concat (map player_lines tops) @
        [''Player with the Best Overall Stats:''] @ player_lines best_player @
        [''Second Place:''] @ player_lines second_place @
        [''Third Place:''] @ player_lines third_place @
        [''The NBA MVP should be: '' @ getitem best_player ''Player''])"

text \<open>
  The run: the exception that ends it, if any, and the lines printed. Nothing in the
  script catches an exception.
\<close>

definition main ::
  "regex_engine \<Rightarrow> (string \<Rightarrow> 'v::linorder option) \<Rightarrow> ('v list \<Rightarrow> 'v) \<Rightarrow> (string \<Rightarrow> string)
     \<Rightarrow> string option list \<Rightarrow> string list list \<Rightarrow> args \<Rightarrow> error option \<times> string list" where
  "main eng pf py_sum strp names_table_rows stats_table_rows a =
     (case get_player_stats strp names_table_rows stats_table_rows of
        (Inl e, out) \<Rightarrow> (Some e, out)
      | (Inr stats, out) \<Rightarrow>
          (case main_filter eng stats a of
             Inl e \<Rightarrow> (Some e, out)
           | Inr stats' \<Rightarrow>
               (case calculate_mvp pf py_sum stats' (args_top a) of
                  Inl e \<Rightarrow> (Some e, out)
                | Inr r \<Rightarrow> (None, out @ report r))))"

subsection \<open>Instances of the parameters\<close>

text \<open>
  Small instances, used where a statement is evaluated on concrete strings, and only on
  strings where they agree with the interpreter.

  \<open>digits_float\<close> reads a non-empty string of decimal digits as the integer it denotes
  and rejects every other string. On a string of digits it agrees with \<^verbatim>\<open>float\<close>, whose
  value is then that integer (exactly, for up to 15 digits); on a string of letters that
  is no spelling of infinity or NaN it agrees with \<^verbatim>\<open>float\<close> too, which raises
  \<^verbatim>\<open>ValueError\<close>. With it goes \<open>sum_list\<close> on the integers: the sum of a few small
  integers is exact however \<^verbatim>\<open>sum\<close> adds them.
\<close>

definition is_digit :: "char \<Rightarrow> bool" where
  "is_digit c = (let n = (of_char c :: nat) in 48 \<le> n \<and> n \<le> 57)"

definition digits_float :: "string \<Rightarrow> int option" where
  "digits_float s =
     (if s \<noteq> [] \<and> list_all is_digit s
      then Some (foldl (\<lambda>n c. 10 * n + (int (of_char c) - 48)) 0 s)
      else None)"

text \<open>
  \<open>strip_ws\<close> removes white space at both ends. The characters of the type \<open>char\<close> are
  the code points below 256, and those that \<^verbatim>\<open>str.strip\<close> removes are 9 to 13, 28 to 32,
  133 (U+0085) and 160 (U+00A0).
\<close>

definition is_space :: "char \<Rightarrow> bool" where
  "is_space c =
     (let n = (of_char c :: nat)
      in (9 \<le> n \<and> n \<le> 13) \<or> (28 \<le> n \<and> n \<le> 32) \<or> n = 133 \<or> n = 160)"

definition strip_ws :: "string \<Rightarrow> string" where
  "strip_ws s = rev (dropWhile is_space (rev (dropWhile is_space s)))"

text \<open>
  \<open>ci_prefix_at pat s i\<close>: the characters of \<open>pat\<close> stand in \<open>s\<close> from position \<open>i\<close> on,
  the case of the letters of ASCII ignored.
\<close>

definition is_letter :: "char \<Rightarrow> bool" where
  "is_letter c = (let n = (of_char c :: nat) in (65 \<le> n \<and> n \<le> 90) \<or> (97 \<le> n \<and> n \<le> 122))"

definition lower_char :: "char \<Rightarrow> char" where
  "lower_char c = (let n = (of_char c :: nat) in if 65 \<le> n \<and> n \<le> 90 then char_of (n + 32) else c)"

fun starts_with :: "'a list \<Rightarrow> 'a list \<Rightarrow> bool" where
  "starts_with [] s = True"
| "starts_with (a # q) [] = False"
| "starts_with (a # q) (c # s) = (a = c \<and> starts_with q s)"

definition ci_prefix_at :: "string \<Rightarrow> string \<Rightarrow> nat \<Rightarrow> bool" where
  "ci_prefix_at pat s i =
     (i \<le> length s \<and> starts_with (map lower_char pat) (map lower_char (drop i s)))"

text \<open>
  \<open>literal_search\<close> is an engine for the patterns made of letters of ASCII, which stand
  for themselves: with \<^verbatim>\<open>IGNORECASE\<close> the case of the letters is ignored, without it the
  characters must be equal. On these patterns and on the strings of the type \<open>char\<close>
  list (code points below 256) this is what Python's engine does. It rejects every other
  pattern, which Python's engine does not, and is used on patterns of letters only.
\<close>

definition literal_search :: regex_engine where
  "literal_search pat flags =
     (if list_all is_letter pat
      then Some (if IGNORECASE \<in> set flags then ci_prefix_at pat
                 else (\<lambda>s i. i \<le> length s \<and> starts_with pat (drop i s)))
      else None)"

text \<open>
  What the statements on literal patterns need of the engine, and what Python's engine
  does: a pattern of letters of ASCII compiles, and with \<^verbatim>\<open>IGNORECASE\<close> it matches at
  every position where its letters stand, their case ignored. (It may match elsewhere
  too: Python's case folding also pairs the letter k with the Kelvin sign.)
\<close>

definition literal_law :: "regex_engine \<Rightarrow> bool" where
  "literal_law eng =
     (\<forall>pat. list_all is_letter pat \<longrightarrow>
        (\<exists>m. eng pat [IGNORECASE] = Some m \<and> (\<forall>s i. ci_prefix_at pat s i \<longrightarrow> m s i)))"

text \<open>
  What the example of the specification needs of \<^verbatim>\<open>sum\<close>, and what the interpreter's
  does, whether it adds from the left or with compensation: on whole numbers whose sum is
  below \<open>2\<^sup>5\<^sup>3\<close> it is exact.
\<close>

definition sum_exact :: "('v::linordered_idom list \<Rightarrow> 'v) \<Rightarrow> bool" where
  "sum_exact py_sum =
     (\<forall>ks :: nat list. sum_list ks < 2 ^ 53 \<longrightarrow> py_sum (map of_nat ks) = of_nat (sum_list ks))"

subsection \<open>The same functions on a store of objects\<close>

text \<open>
  Python passes lists and dictionaries by reference. To say what a call leaves
  unchanged, the store holds the dictionaries and the lists at addresses: a list is a
  list of addresses of dictionaries. A new list is put at \<open>next_addr\<close>, the first
  address not in use.
\<close>

record store =
  dicts :: "nat \<Rightarrow> player"
  lists :: "nat \<Rightarrow> nat list"
  next_addr :: nat

definition new_list :: "nat list \<Rightarrow> store \<Rightarrow> nat \<times> store" where
  "new_list xs s =
     (next_addr s, s\<lparr>lists := (lists s)(next_addr s := xs), next_addr := Suc (next_addr s)\<rparr>)"

definition list_append :: "nat \<Rightarrow> nat \<Rightarrow> store \<Rightarrow> store" where
  "list_append a r s = s\<lparr>lists := (lists s)(a := lists s a @ [r])\<rparr>"

text \<open>
  The loop of line 92 reads the list \<^verbatim>\<open>player_stats\<close> at its index \<open>i\<close> in the store of
  the moment, as Python's list iterator does, and line 94 appends to the list
  \<^verbatim>\<open>filtered_stats\<close>. Were the two the same list, the loop would not end: the function is
  partial, and \<open>None\<close> is a run that does not return.
\<close>

partial_function (option) filter_loop_st ::
  "regex_engine \<Rightarrow> string \<Rightarrow> nat \<Rightarrow> nat \<Rightarrow> nat \<Rightarrow> store \<Rightarrow> ((error + unit) \<times> store) option" where
  "filter_loop_st eng regex_pattern player_stats filtered_stats i s =
     (if i < length (lists s player_stats) then
        (let player = lists s player_stats ! i in
         case re_search eng regex_pattern (getitem (dicts s player) ''Player'') [IGNORECASE] of
           Inl e \<Rightarrow> Some (Inl e, s)
         | Inr found \<Rightarrow>
             if found
             then filter_loop_st eng regex_pattern player_stats filtered_stats (Suc i)
                    (list_append filtered_stats player s)
             else filter_loop_st eng regex_pattern player_stats filtered_stats (Suc i) s)
      else Some (Inr (), s))"

definition filter_players_st ::
  "regex_engine \<Rightarrow> nat \<Rightarrow> string \<Rightarrow> store \<Rightarrow> ((error + nat) \<times> store) option" where
  "filter_players_st eng player_stats regex_pattern s =
     (case new_list [] s of
        (filtered_stats, s1) \<Rightarrow>
          (case filter_loop_st eng regex_pattern player_stats filtered_stats 0 s1 of
             None \<Rightarrow> None
           | Some (Inl e, s2) \<Rightarrow> Some (Inl e, s2)
           | Some (Inr u, s2) \<Rightarrow> Some (Inr filtered_stats, s2)))"

text \<open>
  \<^verbatim>\<open>sorted\<close> and the slice of line 69 read their argument and return a new list; the key
  function reads the dictionary at the address it is given.
\<close>

definition sorted_reverse_st ::
  "(player \<Rightarrow> error + 'k::linorder) \<Rightarrow> nat \<Rightarrow> store \<Rightarrow> (error + nat) \<times> store" where
  "sorted_reverse_st key xs s =
     (case sorted_reverse (\<lambda>r. key (dicts s r)) (lists s xs) of
        Inl e \<Rightarrow> (Inl e, s)
      | Inr ys \<Rightarrow> (case new_list ys s of (a, s') \<Rightarrow> (Inr a, s')))"

definition calculate_mvp_st ::
  "(string \<Rightarrow> 'v::linorder option) \<Rightarrow> ('v list \<Rightarrow> 'v) \<Rightarrow> nat \<Rightarrow> int \<Rightarrow> store
     \<Rightarrow> (error + (nat \<times> nat \<times> nat \<times> nat)) \<times> store" where
  "calculate_mvp_st pf py_sum player_stats top_count s =
     (case sorted_reverse_st (points_key pf) player_stats s of
        (Inl e, s1) \<Rightarrow> (Inl e, s1)
      | (Inr by_points, s1) \<Rightarrow>
     (case new_list (slice_to top_count (lists s1 by_points)) s1 of
        (tops, s2) \<Rightarrow>
     (case sorted_reverse_st (overall_key pf py_sum) player_stats s2 of
        (Inl e, s3) \<Rightarrow> (Inl e, s3)
      | (Inr by_overall, s3) \<Rightarrow>
     (case py_index (lists s3 by_overall) 0 of
        Inl e \<Rightarrow> (Inl e, s3)
      | Inr best_player \<Rightarrow>
     (case py_index (lists s3 by_overall) 1 of
        Inl e \<Rightarrow> (Inl e, s3)
      | Inr second_place \<Rightarrow>
     (case py_index (lists s3 by_overall) 2 of
        Inl e \<Rightarrow> (Inl e, s3)
      | Inr third_place \<Rightarrow>
          (Inr (tops, best_player, second_place, third_place), s3)))))))"

text \<open>What a store holds at the addresses of a list: the dictionaries themselves.\<close>

definition contents :: "store \<Rightarrow> nat \<Rightarrow> player list" where
  "contents s a = map (dicts s) (lists s a)"

text \<open>A call leaves the objects of the store it started from as they were.\<close>

definition unchanged :: "store \<Rightarrow> store \<Rightarrow> bool" where
  "unchanged s s' = (dicts s' = dicts s \<and> (\<forall>a < next_addr s. lists s' a = lists s a))"

subsection \<open>The words of the specification\<close>

text \<open>
  A player is parsed when \<^verbatim>\<open>float\<close> accepts each of its five numeric fields. Its points
  value is the number its \<open>Points\<close> field denotes, and its overall score is the \<^verbatim>\<open>sum\<close> of
  the five numbers: points, field-goal percentage, three-point percentage, rebounds and
  assists.
\<close>

definition parsed :: "(string \<Rightarrow> 'v option) \<Rightarrow> player \<Rightarrow> bool" where
  "parsed pf p =
     (pf (Points p) \<noteq> None \<and> pf (Field_Goal_Percentage p) \<noteq> None \<and>
      pf (Three_Point_Percentage p) \<noteq> None \<and> pf (Rebounds p) \<noteq> None \<and> pf (Assists p) \<noteq> None)"

definition points_value :: "(string \<Rightarrow> 'v option) \<Rightarrow> player \<Rightarrow> 'v" where
  "points_value pf p = the (pf (Points p))"

definition overall_score :: "(string \<Rightarrow> 'v option) \<Rightarrow> ('v list \<Rightarrow> 'v) \<Rightarrow> player \<Rightarrow> 'v" where
  "overall_score pf py_sum p =
     py_sum [the (pf (Points p)), the (pf (Field_Goal_Percentage p)),
             the (pf (Three_Point_Percentage p)), the (pf (Rebounds p)), the (pf (Assists p))]"

text \<open>
  \<open>ys\<close> is \<open>xs\<close> sorted descending by \<open>f\<close>, items of equal \<open>f\<close> in the order they have in
  \<open>xs\<close>.
\<close>

definition stable_descending :: "('a \<Rightarrow> 'k::linorder) \<Rightarrow> 'a list \<Rightarrow> 'a list \<Rightarrow> bool" where
  "stable_descending f xs ys =
     (mset ys = mset xs \<and> sorted (rev (map f ys)) \<and>
      (\<forall>k. filter (\<lambda>x. f x = k) ys = filter (\<lambda>x. f x = k) xs))"

text \<open>
  The dictionary that lines 27 to 49 build from a row with all its columns; the players
  that \<open>get_player_stats\<close> retains, one for each row with at least 15 cells; and the
  diagnostics it prints, one for each row with fewer than 9 cells.
\<close>

definition player_of_row :: "(string \<Rightarrow> string) \<Rightarrow> string option \<times> string list \<Rightarrow> player" where
  "player_of_row strp row =
     (case row of (name_row, columns) \<Rightarrow>
        \<lparr>Player = (case name_row of Some text \<Rightarrow> strp text | None \<Rightarrow> ''N/A''),
         Points = strp (columns ! 3),
         Field_Goal_Percentage = strp (columns ! 6),
         Three_Point_Percentage = strp (columns ! 9),
         Rebounds = strp (columns ! 13),
         Assists = strp (columns ! 14)\<rparr>)"

definition retained_players ::
  "(string \<Rightarrow> string) \<Rightarrow> string option list \<Rightarrow> string list list \<Rightarrow> player list" where
  "retained_players strp names_table_rows stats_table_rows =
     map (player_of_row strp)
       (filter (\<lambda>row. 15 \<le> length (snd row))
          (zip (drop 1 names_table_rows) (drop 1 stats_table_rows)))"

definition diagnostics :: "string option list \<Rightarrow> string list list \<Rightarrow> string list" where
  "diagnostics names_table_rows stats_table_rows =
     replicate
       (length (filter (\<lambda>row. length (snd row) < 9)
                  (zip (drop 1 names_table_rows) (drop 1 stats_table_rows))))
       ''Invalid row, skipping...''"

subsection \<open>The players of the specification's example\<close>

definition player_A :: player where
  "player_A = \<lparr>Player = ''A'', Points = ''30'', Field_Goal_Percentage = ''50'',
     Three_Point_Percentage = ''40'', Rebounds = ''10'', Assists = ''5''\<rparr>"

definition player_B :: player where
  "player_B = \<lparr>Player = ''B'', Points = ''25'', Field_Goal_Percentage = ''60'',
     Three_Point_Percentage = ''45'', Rebounds = ''12'', Assists = ''8''\<rparr>"

definition player_C :: player where
  "player_C = \<lparr>Player = ''C'', Points = ''20'', Field_Goal_Percentage = ''40'',
     Three_Point_Percentage = ''30'', Rebounds = ''5'', Assists = ''3''\<rparr>"

text \<open>
  Rows of the statistics table: two with all their cells, whose fields are those of
  players A and B, one whose points cell is not a number, and one with nine cells.
\<close>

definition stat_row_A :: "string list" where
  "stat_row_A = [''1'', ''SF'', ''36'', ''30'', ''10'', ''20'', ''50'', ''2'', ''6'', ''40'',
                 ''5'', ''6'', ''80'', ''10'', ''5'']"

definition stat_row_B :: "string list" where
  "stat_row_B = [''2'', ''PG'', ''35'', ''25'', ''9'', ''15'', ''60'', ''3'', ''7'', ''45'',
                 ''4'', ''5'', ''85'', ''12'', ''8'']"

definition stat_row_unparsable :: "string list" where
  "stat_row_unparsable = [''3'', ''C'', ''30'', ''abc'', ''8'', ''20'', ''40'', ''1'', ''4'', ''30'',
                          ''3'', ''4'', ''70'', ''5'', ''3'']"

definition stat_row_nine :: "string list" where
  "stat_row_nine = [''1'', ''SF'', ''36'', ''30'', ''10'', ''20'', ''50'', ''2'', ''6'']"

text \<open>A player named as in the specification's example of the filter.\<close>

definition player_King :: player where
  "player_King = \<lparr>Player = ''LeBron King'', Points = ''28'', Field_Goal_Percentage = ''52'',
     Three_Point_Percentage = ''38'', Rebounds = ''8'', Assists = ''7''\<rparr>"

text \<open>
  A store with three dictionaries at the addresses 0, 1 and 2, and the list of the three
  at address 3.
\<close>

definition example_store :: store where
  "example_store =
     \<lparr>dicts = (\<lambda>a. if a = 0 then player_A else if a = 1 then player_King else player_B),
      lists = (\<lambda>a. if a = 3 then [0, 1, 2] else []),
      next_addr = 4\<rparr>"

section \<open>Properties\<close>

subsection \<open>Sorting with a key that can raise\<close>

lemma map_keys_total:
  "\<forall>x\<in>set xs. key x = Inr (f x) \<Longrightarrow> map_keys key xs = Inr (map f xs)"
  by (induction xs) auto

lemma map_keys_error:
  assumes "x \<in> set xs" and "key x = Inl e"
    and "\<forall>y\<in>set xs. \<forall>e'. key y = Inl e' \<longrightarrow> e' = e"
  shows "map_keys key xs = Inl e"
  using assms
proof (induction xs)
  case Nil
  then show ?case by simp
next
  case (Cons a xs)
  show ?case
  proof (cases "key a")
    case (Inl e')
    have "a \<in> set (a # xs)" by simp
    with Cons.prems(3) Inl have "e' = e" by blast
    with Inl show ?thesis by simp
  next
    case (Inr k)
    with Cons.prems(1,2) have "x \<in> set xs" by auto
    moreover have "\<forall>y\<in>set xs. \<forall>e'. key y = Inl e' \<longrightarrow> e' = e"
      using Cons.prems(3) by (meson list.set_intros(2))
    ultimately have "map_keys key xs = Inl e"
      using Cons.IH Cons.prems(2) by blast
    with Inr show ?thesis by simp
  qed
qed

lemma insort_key_decorate:
  "insort_key fst (f x, x) (map (\<lambda>y. (f y, y)) ys) = map (\<lambda>y. (f y, y)) (insort_key f x ys)"
  by (induction ys) auto

lemma sort_key_decorate:
  "sort_key fst (map (\<lambda>y. (f y, y)) xs) = map (\<lambda>y. (f y, y)) (sort_key f xs)"
  by (induction xs) (auto simp: insort_key_decorate)

lemma zip_decorate: "zip (map f xs) xs = map (\<lambda>y. (f y, y)) xs"
  by (induction xs) auto

lemma sorted_reverse_total:
  assumes "\<forall>x\<in>set xs. key x = Inr (f x)"
  shows "sorted_reverse key xs = Inr (rev (sort_key f (rev xs)))"
proof -
  let ?g = "\<lambda>y. (f y, y)"
  have "rev (zip (map f xs) xs) = map ?g (rev xs)"
    by (simp add: zip_decorate rev_map)
  then have "sort_key fst (rev (zip (map f xs) xs)) = map ?g (sort_key f (rev xs))"
    by (simp only: sort_key_decorate)
  then have "map snd (rev (sort_key fst (rev (zip (map f xs) xs)))) = rev (sort_key f (rev xs))"
    by (simp add: rev_map comp_def)
  then show ?thesis
    using map_keys_total [OF assms] by (simp add: sorted_reverse_def)
qed

lemma sorted_reverse_error:
  assumes "x \<in> set xs" and "key x = Inl e"
    and "\<forall>y\<in>set xs. \<forall>e'. key y = Inl e' \<longrightarrow> e' = e"
  shows "sorted_reverse key xs = Inl e"
  using map_keys_error [OF assms] by (simp add: sorted_reverse_def)

lemma stable_descending_sort:
  "stable_descending f xs (rev (sort_key f (rev xs)))"
  unfolding stable_descending_def
proof (intro conjI allI)
  show "mset (rev (sort_key f (rev xs))) = mset xs" by simp
  show "sorted (rev (map f (rev (sort_key f (rev xs)))))"
    by (simp add: rev_map)
  show "filter (\<lambda>x. f x = k) (rev (sort_key f (rev xs))) = filter (\<lambda>x. f x = k) xs" for k
    by (simp add: rev_filter [symmetric] sort_key_stable)
qed

text \<open>The three conditions of \<open>stable_descending\<close> leave one list only.\<close>

lemma stable_descending_unique:
  assumes "stable_descending f xs ys"
  shows "ys = rev (sort_key f (rev xs))"
proof -
  have "sort_key f (rev xs) = rev ys"
  proof (rule properties_for_sort_key)
    show "mset (rev ys) = mset (rev xs)"
      using assms by (simp add: stable_descending_def)
    show "sorted (map f (rev ys))"
      using assms by (simp add: stable_descending_def rev_map)
    show "filter (\<lambda>x. f k = f x) (rev ys) = filter (\<lambda>x. f k = f x) (rev xs)" for k
    proof -
      have c: "(\<lambda>x. f k = f x) = (\<lambda>x. f x = f k)"
        by auto
      have "filter (\<lambda>x. f x = f k) ys = filter (\<lambda>x. f x = f k) xs"
        using assms by (simp add: stable_descending_def)
      then show ?thesis
        unfolding c by (simp add: rev_filter [symmetric])
    qed
  qed
  then show ?thesis by (simp add: rev_swap)
qed

subsection \<open>The two keys and the two sorts of \<open>calculate_mvp\<close>\<close>

lemma points_key_eq:
  "points_key pf p = (if pf (Points p) = None then Inl ValueError else Inr (points_value pf p))"
  by (auto simp: points_key_def getitem_def float_of_def points_value_def)

lemma overall_key_eq:
  "overall_key pf py_sum p = (if parsed pf p then Inr (overall_score pf py_sum p) else Inl ValueError)"
  by (auto simp: overall_key_def sum_floats_def keys_def getitem_def float_of_def parsed_def
      overall_score_def split: option.splits)

lemma parsed_Points: "parsed pf p \<Longrightarrow> pf (Points p) \<noteq> None"
  by (simp add: parsed_def)

lemma by_points_parsed:
  assumes "\<forall>p\<in>set ps. pf (Points p) \<noteq> None"
  shows "sorted_players_by_points pf ps = Inr (rev (sort_key (points_value pf) (rev ps)))"
  unfolding sorted_players_by_points_def
  by (rule sorted_reverse_total) (use assms in \<open>auto simp: points_key_eq\<close>)

lemma by_points_error:
  assumes "p \<in> set ps" and "pf (Points p) = None"
  shows "sorted_players_by_points pf ps = Inl ValueError"
  unfolding sorted_players_by_points_def
  by (rule sorted_reverse_error [OF assms(1)])
    (use assms in \<open>auto simp: points_key_eq split: if_splits\<close>)

lemma by_overall_parsed:
  assumes "\<forall>p\<in>set ps. parsed pf p"
  shows "sorted_players_by_overall pf py_sum ps = Inr (rev (sort_key (overall_score pf py_sum) (rev ps)))"
  unfolding sorted_players_by_overall_def
  by (rule sorted_reverse_total) (use assms in \<open>auto simp: overall_key_eq\<close>)

lemma by_overall_error:
  assumes "p \<in> set ps" and "\<not> parsed pf p"
  shows "sorted_players_by_overall pf py_sum ps = Inl ValueError"
  unfolding sorted_players_by_overall_def
  by (rule sorted_reverse_error [OF assms(1)])
    (use assms in \<open>auto simp: overall_key_eq split: if_splits\<close>)

lemma top_players_cases:
  "top_players pf ps n = Inl ValueError \<or> (\<exists>t. top_players pf ps n = Inr t)"
proof (cases "\<forall>p\<in>set ps. pf (Points p) \<noteq> None")
  case True
  then show ?thesis by (simp add: top_players_def by_points_parsed)
next
  case False
  then show ?thesis by (auto simp: top_players_def by_points_error)
qed

lemma calculate_mvp_unparsed:
  assumes "p \<in> set ps" and "\<not> parsed pf p"
  shows "calculate_mvp pf py_sum ps n = Inl ValueError"
  using top_players_cases [of pf ps n] by_overall_error [OF assms]
  by (auto simp: calculate_mvp_def)

lemma calculate_mvp_parsed:
  assumes "\<forall>p\<in>set ps. parsed pf p"
  shows "calculate_mvp pf py_sum ps n =
    (if length ps < 3 then Inl IndexError
     else Inr (slice_to n (rev (sort_key (points_value pf) (rev ps))),
               rev (sort_key (overall_score pf py_sum) (rev ps)) ! 0,
               rev (sort_key (overall_score pf py_sum) (rev ps)) ! 1,
               rev (sort_key (overall_score pf py_sum) (rev ps)) ! 2))"
proof -
  have "\<forall>p\<in>set ps. pf (Points p) \<noteq> None"
    using assms by (simp add: parsed_Points)
  then show ?thesis
    by (simp add: calculate_mvp_def top_players_def by_points_parsed by_overall_parsed [OF assms]
        py_index_def Let_def)
qed

lemmas example_defs =
  player_A_def player_B_def player_C_def digits_float_def is_digit_def parsed_def

subsection \<open>Slices and sorting a reversed list\<close>

lemma slice_to_nonneg: "0 \<le> n \<Longrightarrow> slice_to n xs = take (nat n) xs"
  by (simp add: slice_to_def)

text \<open>A negative bound drops entries from the end of the list.\<close>

lemma slice_to_negative:
  "n < 0 \<Longrightarrow> slice_to n xs = take (length xs - nat (- n)) xs"
proof -
  assume "n < 0"
  then have "nat (int (length xs) + n) = length xs - nat (- n)"
    by linarith
  with \<open>n < 0\<close> show ?thesis
    by (simp add: slice_to_def)
qed

lemma sort_key_rev_distinct:
  assumes "distinct (map f xs)"
  shows "sort_key f (rev xs) = sort_key f xs"
proof (rule sort_key_eq_sort_key)
  show "mset (rev xs) = mset xs" by simp
  show "inj_on f (set (rev xs))"
    using assms by (simp add: distinct_map)
qed

subsection \<open>Fewer than three players\<close>

text \<open>
  Claim C1 asks for an explicit insufficient-data error when fewer than three players
  remain, and never an out-of-range access. The script has no such error: on the empty
  list it raises \<^verbatim>\<open>IndexError\<close> at line 72, and a run on tables without rows ends with it.
\<close>

theorem empty_list_index_error:
  "calculate_mvp digits_float sum_list [] 5 = Inl IndexError \<and>
   main literal_search digits_float sum_list strip_ws [] [] (parse_args None None) = (Some IndexError, [])"
  by (simp add: calculate_mvp_def top_players_def sorted_players_by_points_def
      sorted_players_by_overall_def sorted_reverse_def py_index_def slice_to_def
      main_def get_player_stats_def main_filter_def parse_args_def)

text \<open>
  Claim C1 as amended: with fewer than three players \<open>calculate_mvp\<close> always fails. The
  failure is the out-of-range access of lines 72 to 74 (\<^verbatim>\<open>IndexError\<close>) when every
  numeric field parses, and the \<^verbatim>\<open>ValueError\<close> of \<^verbatim>\<open>float\<close> otherwise.
\<close>

theorem short_list_error:
  assumes "length ps < 3"
  shows "calculate_mvp pf py_sum ps n =
    Inl (if \<forall>p\<in>set ps. parsed pf p then IndexError else ValueError)"
proof (cases "\<forall>p\<in>set ps. parsed pf p")
  case True
  then show ?thesis using assms by (simp add: calculate_mvp_parsed)
next
  case False
  then show ?thesis by (auto simp: calculate_mvp_unparsed)
qed

theorem short_list_error_witness:
  "length [player_A, player_B] < 3 \<and>
   calculate_mvp digits_float sum_list [player_A, player_B] 2 = Inl IndexError"
  using short_list_error [where ps = "[player_A, player_B]" and pf = digits_float
      and py_sum = sum_list and n = 2]
  by (simp add: example_defs)

subsection \<open>The overall ranking\<close>

text \<open>
  Claim C4: for every sequence of players whose numeric fields parse, the list that line 71
  computes is the sequence sorted descending by the overall score, the \<^verbatim>\<open>sum\<close> of the five
  numeric fields as the interpreter computes it, players of equal score in their original
  order; and when there are at least three players,
  \<open>calculate_mvp\<close> returns its first, second and third entries as best, second and third
  place.
\<close>

theorem overall_ranking_sorted:
  assumes "\<forall>p\<in>set ps. parsed pf p"
  shows "\<exists>ranking.
           sorted_players_by_overall pf py_sum ps = Inr ranking \<and>
           stable_descending (overall_score pf py_sum) ps ranking \<and>
           (3 \<le> length ps \<longrightarrow>
              (\<exists>tops. calculate_mvp pf py_sum ps n = Inr (tops, ranking ! 0, ranking ! 1, ranking ! 2)))"
proof (intro exI conjI impI)
  show "sorted_players_by_overall pf py_sum ps = Inr (rev (sort_key (overall_score pf py_sum) (rev ps)))"
    by (rule by_overall_parsed [OF assms])
  show "stable_descending (overall_score pf py_sum) ps (rev (sort_key (overall_score pf py_sum) (rev ps)))"
    by (rule stable_descending_sort)
  assume "3 \<le> length ps"
  then show "calculate_mvp pf py_sum ps n =
      Inr (slice_to n (rev (sort_key (points_value pf) (rev ps))),
           rev (sort_key (overall_score pf py_sum) (rev ps)) ! 0,
           rev (sort_key (overall_score pf py_sum) (rev ps)) ! 1,
           rev (sort_key (overall_score pf py_sum) (rev ps)) ! 2)"
    by (simp add: calculate_mvp_parsed [OF assms])
qed

text \<open>The three players of the example satisfy the hypothesis.\<close>

theorem overall_ranking_sorted_witness:
  "parsed digits_float player_A \<and> parsed digits_float player_B \<and>
   parsed digits_float player_C \<and>
   (\<exists>ranking.
      sorted_players_by_overall digits_float sum_list [player_A, player_B, player_C] = Inr ranking \<and>
      stable_descending (overall_score digits_float sum_list) [player_A, player_B, player_C] ranking \<and>
      (3 \<le> length [player_A, player_B, player_C] \<longrightarrow>
         (\<exists>tops. calculate_mvp digits_float sum_list [player_A, player_B, player_C] 2 =
            Inr (tops, ranking ! 0, ranking ! 1, ranking ! 2))))"
proof -
  have h: "\<forall>p\<in>set [player_A, player_B, player_C]. parsed digits_float p"
    by (simp add: example_defs)
  from h overall_ranking_sorted [OF h, where py_sum = sum_list and n = 2] show ?thesis by simp
qed

subsection \<open>The top players by points\<close>

text \<open>
  Claim C5: for every sequence of players whose numeric fields parse and every
  \<open>top_count \<ge> 0\<close>, the list of line 68 is the sequence sorted descending by points,
  players of equal points in their original order, and \<open>top_players\<close> is its first
  \<open>top_count\<close> entries (all of them when there are fewer); with at least three players
  this list is the first component of what \<open>calculate_mvp\<close> returns.
\<close>

theorem top_by_points_sorted:
  assumes "\<forall>p\<in>set ps. parsed pf p" and "0 \<le> n"
  shows "\<exists>by_points.
           sorted_players_by_points pf ps = Inr by_points \<and>
           stable_descending (points_value pf) ps by_points \<and>
           top_players pf ps n = Inr (take (nat n) by_points) \<and>
           (3 \<le> length ps \<longrightarrow>
              (\<exists>b s t. calculate_mvp pf py_sum ps n = Inr (take (nat n) by_points, b, s, t)))"
proof -
  let ?bp = "rev (sort_key (points_value pf) (rev ps))"
  have pts: "\<forall>p\<in>set ps. pf (Points p) \<noteq> None"
    using assms(1) by (simp add: parsed_Points)
  have 1: "sorted_players_by_points pf ps = Inr ?bp"
    by (rule by_points_parsed [OF pts])
  have 2: "stable_descending (points_value pf) ps ?bp"
    by (rule stable_descending_sort)
  have 3: "top_players pf ps n = Inr (take (nat n) ?bp)"
    using assms(2) by (simp add: top_players_def 1 slice_to_nonneg)
  have 4: "3 \<le> length ps \<longrightarrow> (\<exists>b s t. calculate_mvp pf py_sum ps n = Inr (take (nat n) ?bp, b, s, t))"
    using assms(2) by (simp add: calculate_mvp_parsed [OF assms(1)] slice_to_nonneg)
  from 1 2 3 4 show ?thesis by blast
qed

text \<open>The example with \<open>top_count = 2\<close>.\<close>

theorem top_by_points_sorted_witness:
  "parsed digits_float player_A \<and> parsed digits_float player_B \<and>
   parsed digits_float player_C \<and> (0::int) \<le> 2 \<and>
   (\<exists>by_points.
      sorted_players_by_points digits_float [player_A, player_B, player_C] = Inr by_points \<and>
      stable_descending (points_value digits_float) [player_A, player_B, player_C] by_points \<and>
      top_players digits_float [player_A, player_B, player_C] 2 = Inr (take (nat 2) by_points) \<and>
      (3 \<le> length [player_A, player_B, player_C] \<longrightarrow>
         (\<exists>b s t. calculate_mvp digits_float sum_list [player_A, player_B, player_C] 2 =
            Inr (take (nat 2) by_points, b, s, t))))"
proof -
  have h: "\<forall>p\<in>set [player_A, player_B, player_C]. parsed digits_float p"
    by (simp add: example_defs)
  have n: "(0::int) \<le> 2" by simp
  from h n top_by_points_sorted [OF h n, where py_sum = sum_list] show ?thesis by simp
qed

text \<open>
  Claim C9: when the points values are pairwise distinct, the top players of the reversed
  sequence are the same set of players as those of the sequence, for every \<open>top_count\<close>;
  and with at least three players both calls of \<open>calculate_mvp\<close> return them.
\<close>

theorem top_by_points_reverse:
  assumes "\<forall>p\<in>set ps. parsed pf p" and "distinct (map (points_value pf) ps)"
  shows "\<exists>tops tops'.
           top_players pf ps n = Inr tops \<and> top_players pf (rev ps) n = Inr tops' \<and>
           set tops' = set tops \<and>
           (3 \<le> length ps \<longrightarrow>
              (\<exists>b s t b' s' t'.
                 calculate_mvp pf py_sum ps n = Inr (tops, b, s, t) \<and>
                 calculate_mvp pf py_sum (rev ps) n = Inr (tops', b', s', t')))"
proof -
  let ?bp = "rev (sort_key (points_value pf) (rev ps))"
  have pts: "\<forall>p\<in>set ps. pf (Points p) \<noteq> None"
    using assms(1) by (simp add: parsed_Points)
  have pts': "\<forall>p\<in>set (rev ps). pf (Points p) \<noteq> None"
    using pts by simp
  have par': "\<forall>p\<in>set (rev ps). parsed pf p"
    using assms(1) by simp
  have same: "rev (sort_key (points_value pf) (rev (rev ps))) = ?bp"
    using sort_key_rev_distinct [OF assms(2)] by simp
  have 1: "top_players pf ps n = Inr (slice_to n ?bp)"
    by (simp add: top_players_def by_points_parsed [OF pts])
  have 2: "top_players pf (rev ps) n = Inr (slice_to n ?bp)"
    using same by (simp add: top_players_def by_points_parsed [OF pts'])
  have 3: "3 \<le> length ps \<longrightarrow>
      (\<exists>b s t b' s' t'.
         calculate_mvp pf py_sum ps n = Inr (slice_to n ?bp, b, s, t) \<and>
         calculate_mvp pf py_sum (rev ps) n = Inr (slice_to n ?bp, b', s', t'))"
    using same by (simp add: calculate_mvp_parsed [OF assms(1)] calculate_mvp_parsed [OF par'])
  from 1 2 3 show ?thesis by blast
qed

text \<open>The example: 30, 25 and 20 points are distinct.\<close>

theorem top_by_points_reverse_witness:
  "parsed digits_float player_A \<and> parsed digits_float player_B \<and>
   parsed digits_float player_C \<and>
   distinct (map (points_value digits_float) [player_A, player_B, player_C]) \<and>
   (\<exists>tops tops'.
      top_players digits_float [player_A, player_B, player_C] 2 = Inr tops \<and>
      top_players digits_float (rev [player_A, player_B, player_C]) 2 = Inr tops' \<and>
      set tops' = set tops \<and>
      (3 \<le> length [player_A, player_B, player_C] \<longrightarrow>
         (\<exists>b s t b' s' t'.
            calculate_mvp digits_float sum_list [player_A, player_B, player_C] 2 = Inr (tops, b, s, t) \<and>
            calculate_mvp digits_float sum_list (rev [player_A, player_B, player_C]) 2 =
              Inr (tops', b', s', t'))))"
proof -
  have h: "\<forall>p\<in>set [player_A, player_B, player_C]. parsed digits_float p"
    by (simp add: example_defs)
  have d: "distinct (map (points_value digits_float) [player_A, player_B, player_C])"
    by (simp add: example_defs points_value_def)
  from h d top_by_points_reverse [OF h d, where py_sum = sum_list and n = 2] show ?thesis by simp
qed

subsection \<open>The example of the specification\<close>

text \<open>
  Claim C6: for players A, B and C with the fields of the example and \<open>top_count = 2\<close>,
  the overall scores are 135, 150 and 98, the top players by points are A and B, and
  \<open>calculate_mvp\<close> returns them with B as best, A as second and C as third. This holds for
  every \<^verbatim>\<open>float\<close> that reads the twelve numerals as the numbers they denote and every
  \<^verbatim>\<open>sum\<close> that is exact on small whole numbers.
\<close>

theorem spec_example:
  fixes pf :: "string \<Rightarrow> 'v::linordered_idom option" and py_sum :: "'v list \<Rightarrow> 'v"
  assumes "map pf [''30'', ''50'', ''40'', ''10'', ''5'', ''25'', ''60'', ''45'', ''12'', ''8'',
                   ''20'', ''3'']
         = map Some [30, 50, 40, 10, 5, 25, 60, 45, 12, 8, 20, 3]"
    and "sum_exact py_sum"
  shows "map (overall_key pf py_sum) [player_A, player_B, player_C] = [Inr 135, Inr 150, Inr 98] \<and>
         top_players pf [player_A, player_B, player_C] 2 = Inr [player_A, player_B] \<and>
         calculate_mvp pf py_sum [player_A, player_B, player_C] 2 =
           Inr ([player_A, player_B], player_B, player_A, player_C)"
proof -
  have e: "py_sum (map of_nat ks) = of_nat (sum_list ks)" if "sum_list ks < 2 ^ 53" for ks
    using assms(2) that unfolding sum_exact_def by blast
  have s: "py_sum [30, 50, 40, 10, 5] = 135" "py_sum [25, 60, 45, 12, 8] = 150"
    "py_sum [20, 40, 30, 5, 3] = 98"
    using e [of "[30, 50, 40, 10, 5]"] e [of "[25, 60, 45, 12, 8]"] e [of "[20, 40, 30, 5, 3]"]
    by simp_all
  have o: "overall_key pf py_sum player_A = Inr 135" "overall_key pf py_sum player_B = Inr 150"
    "overall_key pf py_sum player_C = Inr 98"
    using assms(1) s
    by (simp_all add: overall_key_def sum_floats_def keys_def getitem_def float_of_def
        player_A_def player_B_def player_C_def)
  have p: "points_key pf player_A = Inr 30" "points_key pf player_B = Inr 25"
    "points_key pf player_C = Inr 20"
    using assms(1)
    by (simp_all add: points_key_def getitem_def float_of_def
        player_A_def player_B_def player_C_def)
  have t: "top_players pf [player_A, player_B, player_C] 2 = Inr [player_A, player_B]"
    by (simp add: top_players_def sorted_players_by_points_def sorted_reverse_def p slice_to_def)
  have r: "sorted_players_by_overall pf py_sum [player_A, player_B, player_C] =
      Inr [player_B, player_A, player_C]"
    by (simp add: sorted_players_by_overall_def sorted_reverse_def o)
  show ?thesis
    by (simp add: o t calculate_mvp_def r py_index_def)
qed

lemma sum_exact_sum_list: "sum_exact (sum_list :: int list \<Rightarrow> int)"
proof -
  have "sum_list (map of_nat ks) = (of_nat (sum_list ks) :: int)" for ks :: "nat list"
    by (induction ks) simp_all
  then show ?thesis by (simp add: sum_exact_def)
qed

text \<open>\<open>digits_float\<close> and \<open>sum_list\<close> are such a reading and such a sum.\<close>

theorem spec_example_witness:
  "map digits_float [''30'', ''50'', ''40'', ''10'', ''5'', ''25'', ''60'', ''45'', ''12'', ''8'',
                   ''20'', ''3'']
     = map Some [30, 50, 40, 10, 5, 25, 60, 45, 12, 8, 20, 3] \<and>
   sum_exact (sum_list :: int list \<Rightarrow> int) \<and>
   map (overall_key digits_float sum_list) [player_A, player_B, player_C] =
     [Inr 135, Inr 150, Inr 98] \<and>
   top_players digits_float [player_A, player_B, player_C] 2 = Inr [player_A, player_B] \<and>
   calculate_mvp digits_float sum_list [player_A, player_B, player_C] 2 =
     Inr ([player_A, player_B], player_B, player_A, player_C)"
proof -
  have h: "map digits_float [''30'', ''50'', ''40'', ''10'', ''5'', ''25'', ''60'', ''45'', ''12'',
       ''8'', ''20'', ''3'']
     = map Some [30, 50, 40, 10, 5, 25, 60, 45, 12, 8, 20, 3]"
    by (simp add: digits_float_def is_digit_def)
  note s = sum_exact_sum_list
  from h s spec_example [OF h s] show ?thesis by blast
qed

subsection \<open>The loop of \<open>get_player_stats\<close>\<close>

lemma rows_loop_short:
  "length columns < 9 \<Longrightarrow>
   rows_loop strp ((name_row, columns) # rest) acc out =
     rows_loop strp rest acc (out @ [''Invalid row, skipping...''])"
  by simp

lemma rows_loop_full:
  "15 \<le> length columns \<Longrightarrow>
   rows_loop strp ((name_row, columns) # rest) acc out =
     rows_loop strp rest (acc @ [player_of_row strp (name_row, columns)]) out"
  by (simp add: py_index_def player_of_row_def)

lemma rows_loop_partial:
  "9 \<le> length columns \<Longrightarrow> length columns < 15 \<Longrightarrow>
   rows_loop strp ((name_row, columns) # rest) acc out = (Inl IndexError, out)"
  by (simp add: py_index_def)

lemma rows_loop_complete:
  assumes "\<forall>row\<in>set rows. length (snd row) < 9 \<or> 15 \<le> length (snd row)"
  shows "rows_loop strp rows acc out =
    (Inr (acc @ map (player_of_row strp) (filter (\<lambda>row. 15 \<le> length (snd row)) rows)),
     out @ replicate (length (filter (\<lambda>row. length (snd row) < 9) rows))
             ''Invalid row, skipping...'')"
  using assms
proof (induction rows arbitrary: acc out)
  case Nil
  then show ?case by simp
next
  case (Cons row rows)
  obtain name_row columns where row: "row = (name_row, columns)"
    by (cases row)
  have rest: "\<forall>row\<in>set rows. length (snd row) < 9 \<or> 15 \<le> length (snd row)"
    using Cons.prems by simp
  from Cons.prems row have "length columns < 9 \<or> 15 \<le> length columns"
    by simp
  then show ?case
  proof
    assume short: "length columns < 9"
    show ?thesis
      unfolding row rows_loop_short [OF short] Cons.IH [OF rest]
      using short by (simp add: replicate_append_same)
  next
    assume full: "15 \<le> length columns"
    show ?thesis
      unfolding row rows_loop_full [OF full] Cons.IH [OF rest]
      using full by simp
  qed
qed

lemma set_zip_snd: "row \<in> set (zip xs ys) \<Longrightarrow> snd row \<in> set ys"
  by (cases row) (auto dest: set_zip_rightD)

lemma get_player_stats_complete:
  assumes "\<forall>columns\<in>set (drop 1 stats_table_rows). length columns < 9 \<or> 15 \<le> length columns"
  shows "get_player_stats strp names_table_rows stats_table_rows =
      (Inr (retained_players strp names_table_rows stats_table_rows),
       diagnostics names_table_rows stats_table_rows)"
proof -
  have "\<forall>row\<in>set (zip (drop 1 names_table_rows) (drop 1 stats_table_rows)).
          length (snd row) < 9 \<or> 15 \<le> length (snd row)"
    using assms set_zip_snd by blast
  from rows_loop_complete [OF this, of strp "[]" "[]"]
  show ?thesis
    by (simp add: get_player_stats_def retained_players_def diagnostics_def)
qed

lemmas row_defs =
  stat_row_A_def stat_row_B_def stat_row_unparsable_def stat_row_nine_def

lemmas eval_defs =
  get_player_stats_def py_index_def strip_ws_def is_space_def

text \<open>
  Claim C2 says that a row with at least nine fields yields a player with no out-of-range
  access. Line 32 lets every row with nine or more cells through, and lines 38 to 40 read
  the cells 9, 13 and 14: a row of nine cells raises \<^verbatim>\<open>IndexError\<close> at line 38, which ends
  \<open>get_player_stats\<close> without a list of players.
\<close>

theorem nine_field_row_index_error:
  "get_player_stats strp [None, Some ''A''] [[], stat_row_nine] = (Inl IndexError, [])"
  by (simp add: get_player_stats_def py_index_def row_defs)

text \<open>
  Claim C3 says that a row with a numeric field that does not parse is skipped with a
  diagnostic and never reaches the ranking. \<open>get_player_stats\<close> parses no number: the row
  with the points cell \<^verbatim>\<open>abc\<close> is kept, nothing is printed for it, and the run ends with the
  \<^verbatim>\<open>ValueError\<close> that \<^verbatim>\<open>float\<close> raises in \<open>calculate_mvp\<close>.
\<close>

theorem unparsable_row_retained:
  "get_player_stats strip_ws [None, Some ''A'', Some ''B'', Some ''C'']
      [[], stat_row_A, stat_row_B, stat_row_unparsable] =
     (Inr [player_A, player_B, player_C\<lparr>Points := ''abc''\<rparr>], []) \<and>
   digits_float ''abc'' = None \<and>
   main literal_search digits_float sum_list strip_ws [None, Some ''A'', Some ''B'', Some ''C'']
      [[], stat_row_A, stat_row_B, stat_row_unparsable] (parse_args None None) =
     (Some ValueError, [])"
proof -
  have g: "get_player_stats strip_ws [None, Some ''A'', Some ''B'', Some ''C'']
      [[], stat_row_A, stat_row_B, stat_row_unparsable] =
     (Inr [player_A, player_B, player_C\<lparr>Points := ''abc''\<rparr>], [])"
    by (simp add: eval_defs row_defs player_A_def player_B_def player_C_def)
  have d: "digits_float ''abc'' = None"
    by (simp add: digits_float_def is_digit_def)
  have "\<not> parsed digits_float (player_C\<lparr>Points := ''abc''\<rparr>)"
    by (simp add: parsed_def d)
  then have c: "calculate_mvp digits_float sum_list
      [player_A, player_B, player_C\<lparr>Points := ''abc''\<rparr>] 5 = Inl ValueError"
    by (intro calculate_mvp_unparsed [where p = "player_C\<lparr>Points := ''abc''\<rparr>"]) simp_all
  have "main literal_search digits_float sum_list strip_ws
      [None, Some ''A'', Some ''B'', Some ''C'']
      [[], stat_row_A, stat_row_B, stat_row_unparsable] (parse_args None None) =
     (Some ValueError, [])"
    by (simp add: main_def g main_filter_def parse_args_def c)
  with g d show ?thesis by simp
qed

text \<open>
  Claim C3 as amended: when every row of the statistics table has fewer than 9 or at least
  15 cells, \<open>get_player_stats\<close> returns one player for each row with at least 15 cells,
  its fields the stripped cell texts whether they parse as numbers or not, and prints one
  diagnostic for each row with fewer than 9 cells and none for any other row; and when one
  of the players that the filter stage keeps has a numeric field that does not parse, that
  player reaches \<open>calculate_mvp\<close> and the run ends with its \<^verbatim>\<open>ValueError\<close>, after the
  diagnostics and without a report.
\<close>

theorem rows_retained_unparsed:
  assumes "\<forall>columns\<in>set (drop 1 stats_table_rows). length columns < 9 \<or> 15 \<le> length columns"
  shows "get_player_stats strp names_table_rows stats_table_rows =
      (Inr (retained_players strp names_table_rows stats_table_rows),
       diagnostics names_table_rows stats_table_rows) \<and>
     (\<forall>kept.
        main_filter eng (retained_players strp names_table_rows stats_table_rows) a = Inr kept \<longrightarrow>
        (\<exists>p\<in>set kept. \<not> parsed pf p) \<longrightarrow>
        calculate_mvp pf py_sum kept (args_top a) = Inl ValueError \<and>
        main eng pf py_sum strp names_table_rows stats_table_rows a =
          (Some ValueError, diagnostics names_table_rows stats_table_rows))"
proof (intro conjI allI impI)
  show g: "get_player_stats strp names_table_rows stats_table_rows =
      (Inr (retained_players strp names_table_rows stats_table_rows),
       diagnostics names_table_rows stats_table_rows)"
    by (rule get_player_stats_complete [OF assms])
  fix kept
  assume f: "main_filter eng (retained_players strp names_table_rows stats_table_rows) a = Inr kept"
    and u: "\<exists>p\<in>set kept. \<not> parsed pf p"
  from u show c: "calculate_mvp pf py_sum kept (args_top a) = Inl ValueError"
    using calculate_mvp_unparsed by blast
  show "main eng pf py_sum strp names_table_rows stats_table_rows a =
      (Some ValueError, diagnostics names_table_rows stats_table_rows)"
    by (simp add: main_def g f c)
qed

text \<open>
  Four rows: two that parse, one that does not, and one with eight cells; no pattern, so
  the filter stage keeps the three players.
\<close>

theorem rows_retained_unparsed_witness:
  "15 \<le> length stat_row_A \<and> 15 \<le> length stat_row_B \<and>
   15 \<le> length stat_row_unparsable \<and> length (take 8 stat_row_A) < 9 \<and>
   main_filter literal_search [player_A, player_B, player_C\<lparr>Points := ''abc''\<rparr>]
     (parse_args None None) = Inr [player_A, player_B, player_C\<lparr>Points := ''abc''\<rparr>] \<and>
   (\<exists>p\<in>set [player_A, player_B, player_C\<lparr>Points := ''abc''\<rparr>]. \<not> parsed digits_float p) \<and>
   get_player_stats strip_ws [None, Some ''A'', Some ''B'', Some ''C'', None]
      [[], stat_row_A, stat_row_B, stat_row_unparsable, take 8 stat_row_A] =
     (Inr [player_A, player_B, player_C\<lparr>Points := ''abc''\<rparr>], [''Invalid row, skipping...'']) \<and>
   calculate_mvp digits_float sum_list [player_A, player_B, player_C\<lparr>Points := ''abc''\<rparr>] 5 =
     Inl ValueError \<and>
   main literal_search digits_float sum_list strip_ws
      [None, Some ''A'', Some ''B'', Some ''C'', None]
      [[], stat_row_A, stat_row_B, stat_row_unparsable, take 8 stat_row_A] (parse_args None None) =
     (Some ValueError, [''Invalid row, skipping...''])"
proof -
  let ?names = "[None, Some ''A'', Some ''B'', Some ''C'', None]"
  let ?rows = "[[], stat_row_A, stat_row_B, stat_row_unparsable, take 8 stat_row_A]"
  let ?ps = "[player_A, player_B, player_C\<lparr>Points := ''abc''\<rparr>]"
  have h: "\<forall>columns\<in>set (drop 1 ?rows). length columns < 9 \<or> 15 \<le> length columns"
    by (simp add: row_defs)
  have r: "retained_players strip_ws ?names ?rows = ?ps"
    by (simp add: retained_players_def row_defs player_of_row_def strip_ws_def is_space_def
        player_A_def player_B_def player_C_def)
  have d: "diagnostics ?names ?rows = [''Invalid row, skipping...'']"
    by (simp add: diagnostics_def row_defs)
  have f: "main_filter literal_search ?ps (parse_args None None) = Inr ?ps"
    by (simp add: main_filter_def parse_args_def)
  have e: "\<exists>p\<in>set ?ps. \<not> parsed digits_float p"
    by (simp add: parsed_def digits_float_def is_digit_def)
  have t: "args_top (parse_args None None) = 5"
    by (simp add: parse_args_def)
  have l: "15 \<le> length stat_row_A \<and> 15 \<le> length stat_row_B \<and>
      15 \<le> length stat_row_unparsable \<and> length (take 8 stat_row_A) < 9"
    by (simp add: row_defs)
  from rows_retained_unparsed [OF h, where strp = strip_ws and names_table_rows = ?names
      and eng = literal_search and a = "parse_args None None" and pf = digits_float
      and py_sum = sum_list]
  have "get_player_stats strip_ws ?names ?rows = (Inr ?ps, [''Invalid row, skipping...'']) \<and>
      calculate_mvp digits_float sum_list ?ps 5 = Inl ValueError \<and>
      main literal_search digits_float sum_list strip_ws ?names ?rows (parse_args None None) =
        (Some ValueError, [''Invalid row, skipping...''])"
    unfolding r d t using f e by blast
  with l f e show ?thesis by blast
qed

subsection \<open>The filter\<close>

lemma getitem_Player: "getitem p ''Player'' = Player p"
  by (simp add: getitem_def)

lemma scan_iff: "list_ex P [0 ..< Suc n] = (\<exists>i\<le>n. P i)"
proof -
  have "set [0 ..< Suc n] = {i. i \<le> n}"
    by (auto simp del: upt_Suc)
  then show ?thesis
    unfolding list_ex_iff by blast
qed

lemma re_search_compiled:
  "eng pat flags = Some m \<Longrightarrow> re_search eng pat s flags = Inr (\<exists>i\<le>length s. m s i)"
  unfolding re_search_def scan_iff by simp

lemma re_search_invalid:
  "eng pat flags = None \<Longrightarrow> re_search eng pat s flags = Inl ReError"
  by (simp add: re_search_def)

lemma filter_loop_compiled:
  assumes "eng pat [IGNORECASE] = Some m"
  shows "filter_loop eng pat ps acc =
     Inr (acc @ filter (\<lambda>p. \<exists>i\<le>length (Player p). m (Player p) i) ps)"
  by (induction ps arbitrary: acc)
    (simp_all add: getitem_Player re_search_compiled [of eng pat "[IGNORECASE]" m, OF assms])

lemma filter_loop_invalid:
  assumes "eng pat [IGNORECASE] = None" and "ps \<noteq> []"
  shows "filter_loop eng pat ps acc = Inl ReError"
  using assms(2)
  by (cases ps) (simp_all add: re_search_invalid [of eng pat "[IGNORECASE]", OF assms(1)])

lemma filter_players_invalid:
  assumes "eng pat [IGNORECASE] = None"
  shows "filter_players eng ps pat = (if ps = [] then Inr [] else Inl ReError)"
  by (simp add: filter_players_def filter_loop_invalid [of eng pat, OF assms])

lemma filter_players_compiled:
  assumes "eng pat [IGNORECASE] = Some m"
  shows "filter_players eng ps pat =
     Inr (filter (\<lambda>p. \<exists>i\<le>length (Player p). m (Player p) i) ps)"
  by (simp add: filter_players_def filter_loop_compiled [of eng pat m, OF assms])

text \<open>
  What the two choices of line 93 amount to. An engine that matches the pattern
  \<^verbatim>\<open>King\<close> as the four characters it is made of finds it at position 7 of the name:
  the search of line 93 keeps the player, and a match at position 0 only, which is what
  \<^verbatim>\<open>re.match\<close> tries, would not. And \<open>literal_search\<close> finds \<^verbatim>\<open>king\<close> in the name with the
  flag of line 93 and does not without it.
\<close>

lemma search_is_unanchored:
  "re_search literal_search ''King'' ''LeBron King'' [] = Inr True \<and>
   map_option (\<lambda>m. (m ''LeBron King'' 0, m ''LeBron King'' 7)) (literal_search ''King'' []) =
     Some (False, True)"
  by code_simp

lemma flag_ignores_case:
  "re_search literal_search ''king'' ''LeBron King'' [IGNORECASE] = Inr True \<and>
   re_search literal_search ''king'' ''LeBron King'' [] = Inr False"
  by code_simp

lemma ci_prefix_at_Nil: "ci_prefix_at [] s 0"
  by (simp add: ci_prefix_at_def)

lemma ci_prefix_at_KING: "ci_prefix_at ''KING'' ''LeBron King'' 7"
  by code_simp

lemma ci_prefix_at_king: "ci_prefix_at ''king'' ''LeBron King'' 7"
  by code_simp

lemma literal_law_literal_search: "literal_law literal_search"
  by (simp add: literal_law_def literal_search_def)

lemma literal_law_keeps:
  assumes "literal_law eng" and "list_all is_letter pat" and "ci_prefix_at pat (Player king) i"
    and "king \<in> set ps"
  shows "\<exists>kept. filter_players eng ps pat = Inr kept \<and> king \<in> set kept"
proof -
  from assms(1,2) obtain m where m: "eng pat [IGNORECASE] = Some m"
    and at: "\<forall>s i. ci_prefix_at pat s i \<longrightarrow> m s i"
    unfolding literal_law_def by blast
  have "i \<le> length (Player king)"
    using assms(3) by (simp add: ci_prefix_at_def)
  moreover have "m (Player king) i"
    using at assms(3) by blast
  ultimately have "king \<in> set (filter (\<lambda>p. \<exists>i\<le>length (Player p). m (Player p) i) ps)"
    using assms(4) by auto
  then show ?thesis
    unfolding filter_players_compiled [of eng pat m, OF m] by blast
qed

text \<open>
  Claim C7: for every sequence of players and every pattern that compiles,
  \<open>filter_players\<close> returns exactly the players in whose name the pattern, compiled with
  \<^verbatim>\<open>IGNORECASE\<close>, matches at some position from the start to the end of the name, in their
  order. In particular, with an engine that finds a pattern of letters wherever its letters
  stand, their case ignored, the patterns \<^verbatim>\<open>KING\<close> and \<^verbatim>\<open>king\<close> both keep a player named
  \<^verbatim>\<open>LeBron King\<close>.
\<close>

theorem filter_players_search:
  assumes "eng pat [IGNORECASE] = Some m"
  shows "filter_players eng ps pat =
           Inr (filter (\<lambda>p. \<exists>i\<le>length (Player p). m (Player p) i) ps) \<and>
         (literal_law eng \<longrightarrow> Player king = ''LeBron King'' \<longrightarrow> king \<in> set ps \<longrightarrow>
            (\<exists>kept. filter_players eng ps ''KING'' = Inr kept \<and> king \<in> set kept) \<and>
            (\<exists>kept. filter_players eng ps ''king'' = Inr kept \<and> king \<in> set kept))"
proof (intro conjI impI)
  show "filter_players eng ps pat = Inr (filter (\<lambda>p. \<exists>i\<le>length (Player p). m (Player p) i) ps)"
    by (rule filter_players_compiled [of eng pat m, OF assms])
next
  assume law: "literal_law eng" and name: "Player king = ''LeBron King''" and mem: "king \<in> set ps"
  have "list_all is_letter ''KING''"
    by (simp add: is_letter_def)
  moreover have "ci_prefix_at ''KING'' (Player king) 7"
    unfolding name by (rule ci_prefix_at_KING)
  ultimately show "\<exists>kept. filter_players eng ps ''KING'' = Inr kept \<and> king \<in> set kept"
    using law mem by (intro literal_law_keeps)
next
  assume law: "literal_law eng" and name: "Player king = ''LeBron King''" and mem: "king \<in> set ps"
  have "list_all is_letter ''king''"
    by (simp add: is_letter_def)
  moreover have "ci_prefix_at ''king'' (Player king) 7"
    unfolding name by (rule ci_prefix_at_king)
  ultimately show "\<exists>kept. filter_players eng ps ''king'' = Inr kept \<and> king \<in> set kept"
    using law mem by (intro literal_law_keeps)
qed

text \<open>\<open>literal_search\<close> on a list of three players, one of them named \<^verbatim>\<open>LeBron King\<close>.\<close>

theorem filter_players_search_witness:
  "literal_search ''KING'' [IGNORECASE] = Some (ci_prefix_at ''KING'') \<and>
   literal_law literal_search \<and> Player player_King = ''LeBron King'' \<and>
   player_King \<in> set [player_A, player_King, player_B] \<and>
   filter_players literal_search [player_A, player_King, player_B] ''KING'' = Inr [player_King] \<and>
   (\<exists>kept. filter_players literal_search [player_A, player_King, player_B] ''king'' = Inr kept \<and>
      player_King \<in> set kept)"
proof -
  have c: "literal_search ''KING'' [IGNORECASE] = Some (ci_prefix_at ''KING'')"
    by (simp add: literal_search_def is_letter_def)
  have n: "Player player_King = ''LeBron King''"
    by (simp add: player_King_def)
  have m: "player_King \<in> set [player_A, player_King, player_B]"
    by simp
  have f: "filter (\<lambda>p. list_ex (ci_prefix_at ''KING'' (Player p)) [0 ..< Suc (length (Player p))])
      [player_A, player_King, player_B] = [player_King]"
    by code_simp
  have f': "filter (\<lambda>p. \<exists>i\<le>length (Player p). ci_prefix_at ''KING'' (Player p) i)
      [player_A, player_King, player_B] = [player_King]"
    using f unfolding scan_iff .
  note t = filter_players_search [where eng = literal_search and pat = "''KING''"
        and m = "ci_prefix_at ''KING''" and ps = "[player_A, player_King, player_B]"
        and king = player_King, OF c]
  have 1: "filter_players literal_search [player_A, player_King, player_B] ''KING'' =
      Inr [player_King]"
    using t f' by simp
  have 2: "\<exists>kept. filter_players literal_search [player_A, player_King, player_B] ''king'' =
      Inr kept \<and> player_King \<in> set kept"
    using t literal_law_literal_search n m by blast
  from c literal_law_literal_search n m 1 2 show ?thesis by blast
qed

text \<open>
  Claim C8: with an absent or empty \<^verbatim>\<open>--pattern\<close> the main block does not call the filter and
  the sequence of players is unchanged; and \<open>filter_players\<close> itself, called with the
  empty pattern, returns its input unchanged, since the empty pattern matches every name.
\<close>

theorem empty_pattern_identity:
  "main_filter eng stats (parse_args top_opt None) = Inr stats \<and>
   main_filter eng stats (parse_args top_opt (Some [])) = Inr stats \<and>
   (literal_law eng \<longrightarrow> filter_players eng stats [] = Inr stats)"
proof (intro conjI impI)
  show "main_filter eng stats (parse_args top_opt None) = Inr stats"
    by (simp add: main_filter_def parse_args_def)
  show "main_filter eng stats (parse_args top_opt (Some [])) = Inr stats"
    by (simp add: main_filter_def parse_args_def)
  assume law: "literal_law eng"
  have "list_all is_letter []"
    by simp
  with law obtain m where m: "eng [] [IGNORECASE] = Some m"
    and at: "\<forall>s i. ci_prefix_at [] s i \<longrightarrow> m s i"
    unfolding literal_law_def by blast
  have "m (Player p) 0" for p
    using at ci_prefix_at_Nil by blast
  then have "filter (\<lambda>p. \<exists>i\<le>length (Player p). m (Player p) i) stats = stats"
    by (intro filter_True) blast
  then show "filter_players eng stats [] = Inr stats"
    unfolding filter_players_compiled [of eng "[]" m, OF m] by simp
qed

text \<open>The empty pattern on two players.\<close>

theorem empty_pattern_identity_witness:
  "literal_law literal_search \<and>
   main_filter literal_search [player_A, player_King] (parse_args None None) =
     Inr [player_A, player_King] \<and>
   filter_players literal_search [player_A, player_King] [] = Inr [player_A, player_King]"
  using literal_law_literal_search
    empty_pattern_identity [of literal_search "[player_A, player_King]" None]
  by simp

subsection \<open>The functions on the store\<close>

lemma filter_loop_st_invalid:
  "eng pat [IGNORECASE] = None \<Longrightarrow>
   filter_loop_st eng pat a f i s =
     Some (if i < length (lists s a) then Inl ReError else Inr (), s)"
  by (subst filter_loop_st.simps) (simp add: re_search_invalid)

lemma filter_loop_st_found:
  assumes "\<And>name. re_search eng pat name [IGNORECASE] = Inr (found name)" and "f \<noteq> a"
  shows "filter_loop_st eng pat a f i s =
    Some (Inr (), s\<lparr>lists := (lists s)
      (f := lists s f @ filter (\<lambda>r. found (Player (dicts s r))) (drop i (lists s a)))\<rparr>)"
proof (induction "length (lists s a) - i" arbitrary: i s)
  case 0
  then have "\<not> i < length (lists s a)" by simp
  then show ?case
    by (subst filter_loop_st.simps) simp
next
  case (Suc k)
  then have less: "i < length (lists s a)" by simp
  let ?player = "lists s a ! i"
  let ?s1 = "list_append f ?player s"
  have same: "lists ?s1 a = lists s a" "dicts ?s1 = dicts s"
    using assms(2) by (simp_all add: list_append_def)
  have step: "drop i (lists s a) = ?player # drop (Suc i) (lists s a)"
    using less by (simp add: Cons_nth_drop_Suc)
  have k: "k = length (lists s a) - Suc i" using Suc.hyps(2) by simp
  show ?case
  proof (cases "found (Player (dicts s ?player))")
    case True
    have k1: "k = length (lists ?s1 a) - Suc i" using k same by simp
    have "filter_loop_st eng pat a f i s = filter_loop_st eng pat a f (Suc i) ?s1"
      using less True assms(1) by (subst filter_loop_st.simps) (simp add: getitem_Player)
    also have "\<dots> = Some (Inr (), ?s1\<lparr>lists := (lists ?s1)
        (f := lists ?s1 f @ filter (\<lambda>r. found (Player (dicts ?s1 r))) (drop (Suc i) (lists ?s1 a)))\<rparr>)"
      by (rule Suc.hyps(1) [OF k1])
    also have "\<dots> = Some (Inr (), s\<lparr>lists := (lists s)
        (f := lists s f @ filter (\<lambda>r. found (Player (dicts s r))) (drop i (lists s a)))\<rparr>)"
      using True same by (simp add: step list_append_def)
    finally show ?thesis .
  next
    case False
    have "filter_loop_st eng pat a f i s = filter_loop_st eng pat a f (Suc i) s"
      using less False assms(1) by (subst filter_loop_st.simps) (simp add: getitem_Player)
    also have "\<dots> = Some (Inr (), s\<lparr>lists := (lists s)
        (f := lists s f @ filter (\<lambda>r. found (Player (dicts s r))) (drop (Suc i) (lists s a)))\<rparr>)"
      by (rule Suc.hyps(1) [OF k])
    also have "\<dots> = Some (Inr (), s\<lparr>lists := (lists s)
        (f := lists s f @ filter (\<lambda>r. found (Player (dicts s r))) (drop i (lists s a)))\<rparr>)"
      using False by (simp add: step)
    finally show ?thesis .
  qed
qed

lemma filter_loop_st_compiled:
  assumes "eng pat [IGNORECASE] = Some m" and "f \<noteq> a"
  shows "filter_loop_st eng pat a f i s =
    Some (Inr (), s\<lparr>lists := (lists s)
      (f := lists s f @ filter (\<lambda>r. \<exists>i\<le>length (Player (dicts s r)). m (Player (dicts s r)) i)
        (drop i (lists s a)))\<rparr>)"
  by (rule filter_loop_st_found [where found = "\<lambda>name. \<exists>i\<le>length name. m name i", OF _ assms(2)])
    (rule re_search_compiled [of eng pat "[IGNORECASE]" m, OF assms(1)])

lemma insort_key_map:
  assumes "\<And>z. f (h z) = f' z"
  shows "insort_key f (h x) (map h ys) = map h (insort_key f' x ys)"
  by (induction ys) (simp_all add: assms)

lemma sort_key_map:
  assumes "\<And>z. f (h z) = f' z"
  shows "sort_key f (map h xs) = map h (sort_key f' xs)"
  by (induction xs) (simp_all add: insort_key_map [of f h f', OF assms])

lemma map_keys_map: "map_keys key (map g xs) = map_keys (\<lambda>r. key (g r)) xs"
  by (induction xs) (simp_all split: sum.splits)

lemma sorted_reverse_map:
  "sorted_reverse key (map g xs) = map_sum id (map g) (sorted_reverse (\<lambda>r. key (g r)) xs)"
proof (cases "map_keys (\<lambda>r. key (g r)) xs")
  case (Inl e)
  then show ?thesis by (simp add: sorted_reverse_def map_keys_map)
next
  case (Inr ks)
  have z: "zip ks (map g xs) = map (apsnd g) (zip ks xs)"
    by (simp add: zip_map2 apsnd_def map_prod_def)
  have "sort_key fst (rev (map (apsnd g) (zip ks xs))) =
        map (apsnd g) (sort_key fst (rev (zip ks xs)))"
    unfolding rev_map by (rule sort_key_map) simp
  then have "map snd (rev (sort_key fst (rev (zip ks (map g xs))))) =
        map g (map snd (rev (sort_key fst (rev (zip ks xs)))))"
    by (simp add: z rev_map comp_def)
  then show ?thesis
    using Inr by (simp add: sorted_reverse_def map_keys_map)
qed

lemma py_index_map: "py_index (map g xs) i = map_sum id g (py_index xs i)"
  by (simp add: py_index_def)

lemma slice_to_map: "slice_to n (map g xs) = map g (slice_to n xs)"
  by (simp add: slice_to_def take_map)

lemma unchanged_refl: "unchanged s s"
  by (simp add: unchanged_def)

lemma filter_players_st_compiled:
  assumes "eng pat [IGNORECASE] = Some m" and "a < next_addr s"
  shows "filter_players_st eng a pat s =
    Some (Inr (next_addr s),
          s\<lparr>lists := (lists s)(next_addr s := filter (\<lambda>r. \<exists>i\<le>length (Player (dicts s r)). m (Player (dicts s r)) i) (lists s a)),
            next_addr := Suc (next_addr s)\<rparr>)"
proof -
  have ne: "next_addr s \<noteq> a" using assms(2) by simp
  show ?thesis
    using ne by (simp add: filter_players_st_def new_list_def
        filter_loop_st_compiled [of eng pat m "next_addr s" a, OF assms(1) ne])
qed

lemma filter_players_st_invalid:
  assumes "eng pat [IGNORECASE] = None" and "a < next_addr s"
  shows "filter_players_st eng a pat s =
    Some (if lists s a = [] then Inr (next_addr s) else Inl ReError,
          s\<lparr>lists := (lists s)(next_addr s := []), next_addr := Suc (next_addr s)\<rparr>)"
proof -
  have ne: "next_addr s \<noteq> a" using assms(2) by simp
  show ?thesis
    using ne by (simp add: filter_players_st_def new_list_def
        filter_loop_st_invalid [of eng pat, OF assms(1)])
qed

lemma filter_players_st_frame:
  assumes "a < next_addr s"
  shows "\<exists>r s'. filter_players_st eng a pat s = Some (r, s') \<and> unchanged s s' \<and>
           (\<forall>filtered. r = Inr filtered \<longrightarrow> subseq (lists s' filtered) (lists s a)) \<and>
           map_sum id (contents s') r = filter_players eng (contents s a) pat"
proof (cases "eng pat [IGNORECASE]")
  case None
  show ?thesis
    unfolding filter_players_st_invalid [of eng pat, OF None assms]
    by (simp add: unchanged_def contents_def filter_players_invalid [of eng pat, OF None])
next
  case (Some m)
  show ?thesis
    unfolding filter_players_st_compiled [of eng pat m, OF Some assms]
    by (simp add: unchanged_def contents_def filter_players_compiled [of eng pat m, OF Some] filter_map comp_def)
qed

lemma new_list_props:
  assumes "new_list xs s = (a, s')"
  shows "a = next_addr s" and "next_addr s' = Suc (next_addr s)" and "dicts s' = dicts s"
    and "lists s' (next_addr s) = xs" and "\<And>x. x \<noteq> next_addr s \<Longrightarrow> lists s' x = lists s x"
  using assms by (auto simp: new_list_def)

lemma sorted_reverse_st_cases:
  obtains (error) e where "sorted_reverse_st key a s = (Inl e, s)"
      and "sorted_reverse key (contents s a) = Inl e"
  | (sorted) s' where "sorted_reverse_st key a s = (Inr (next_addr s), s')"
      and "next_addr s' = Suc (next_addr s)" and "dicts s' = dicts s"
      and "\<And>x. x \<noteq> next_addr s \<Longrightarrow> lists s' x = lists s x"
      and "sorted_reverse key (contents s a) = Inr (map (dicts s) (lists s' (next_addr s)))"
proof (cases "sorted_reverse (\<lambda>r. key (dicts s r)) (lists s a)")
  case (Inl e)
  then have "sorted_reverse_st key a s = (Inl e, s)"
    and "sorted_reverse key (contents s a) = Inl e"
    by (simp_all add: sorted_reverse_st_def contents_def sorted_reverse_map)
  then show ?thesis by (rule error)
next
  case (Inr refs)
  obtain b s' where nl: "new_list refs s = (b, s')"
    by (cases "new_list refs s")
  note p = new_list_props [OF nl]
  have 1: "sorted_reverse_st key a s = (Inr (next_addr s), s')"
    using Inr nl p(1) by (simp add: sorted_reverse_st_def)
  have 2: "sorted_reverse key (contents s a) = Inr (map (dicts s) (lists s' (next_addr s)))"
    using Inr p(4) by (simp add: contents_def sorted_reverse_map)
  show ?thesis
    by (rule sorted [OF 1 p(2) p(3) p(5) 2])
qed

lemma calculate_mvp_st_frame:
  assumes "a < next_addr s"
  shows "case calculate_mvp_st pf py_sum a n s of
           (r, s') \<Rightarrow>
             unchanged s s' \<and>
             map_sum id (\<lambda>(tops, b, c, d). (contents s' tops, dicts s' b, dicts s' c, dicts s' d)) r
               = calculate_mvp pf py_sum (contents s a) n"
proof (cases rule: sorted_reverse_st_cases [of "points_key pf" a s])
  case (error e)
  then show ?thesis
    by (simp add: calculate_mvp_st_def calculate_mvp_def top_players_def
        sorted_players_by_points_def unchanged_refl)
next
  case (sorted s1)
  let ?N = "next_addr s"
  obtain t s2 where nl: "new_list (slice_to n (lists s1 ?N)) s1 = (t, s2)"
    by (cases "new_list (slice_to n (lists s1 ?N)) s1")
  note q = new_list_props [OF nl]
  have t: "t = Suc ?N" using q(1) sorted(2) by simp
  have n2: "next_addr s2 = Suc (Suc ?N)" using q(2) sorted(2) by simp
  have d2: "dicts s2 = dicts s" using q(3) sorted(3) by simp
  have l2: "lists s2 x = lists s x" if "x < ?N" for x
    using that q(5) [of x] sorted(2) sorted(4) [of x] by simp
  have lt: "lists s2 (Suc ?N) = slice_to n (lists s1 ?N)"
    using q(4) sorted(2) by simp
  have c2: "contents s2 a = contents s a"
    using assms d2 l2 by (simp add: contents_def)
  have tp: "top_players pf (contents s a) n = Inr (map (dicts s) (slice_to n (lists s1 ?N)))"
    by (simp add: top_players_def sorted_players_by_points_def sorted(5) slice_to_map)
  have start: "calculate_mvp_st pf py_sum a n s =
      (case sorted_reverse_st (overall_key pf py_sum) a s2 of
         (Inl e, s3) \<Rightarrow> (Inl e, s3)
       | (Inr by_overall, s3) \<Rightarrow>
      (case py_index (lists s3 by_overall) 0 of
         Inl e \<Rightarrow> (Inl e, s3)
       | Inr best_player \<Rightarrow>
      (case py_index (lists s3 by_overall) 1 of
         Inl e \<Rightarrow> (Inl e, s3)
       | Inr second_place \<Rightarrow>
      (case py_index (lists s3 by_overall) 2 of
         Inl e \<Rightarrow> (Inl e, s3)
       | Inr third_place \<Rightarrow>
           (Inr (Suc ?N, best_player, second_place, third_place), s3)))))"
    by (simp add: calculate_mvp_st_def sorted(1) nl t)
  show ?thesis
  proof (cases rule: sorted_reverse_st_cases [of "overall_key pf py_sum" a s2])
    case (error e)
    have "unchanged s s2"
      using d2 l2 by (simp add: unchanged_def)
    then show ?thesis
      using error c2
      by (simp add: start calculate_mvp_def tp sorted_players_by_overall_def)
  next
    case (sorted s3)
    let ?refs = "lists s3 (next_addr s2)"
    have d3: "dicts s3 = dicts s" using sorted(3) d2 by simp
    have l3: "lists s3 x = lists s x" if "x < ?N" for x
      using that sorted(4) [of x] l2 [of x] n2 by simp
    have lt3: "lists s3 (Suc ?N) = slice_to n (lists s1 ?N)"
      using sorted(4) [of "Suc ?N"] lt n2 by simp
    have u: "unchanged s s3"
      using d3 l3 by (simp add: unchanged_def)
    have ov: "sorted_players_by_overall pf py_sum (contents s a) = Inr (map (dicts s) ?refs)"
      using sorted(5) c2 d2 by (simp add: sorted_players_by_overall_def)
    have ct: "contents s3 (Suc ?N) = map (dicts s) (slice_to n (lists s1 ?N))"
      by (simp add: contents_def d3 lt3)
    show ?thesis
      using u ct d3
      by (simp add: start sorted(1) calculate_mvp_def tp ov py_index_map)
        (simp add: py_index_def)
  qed
qed

text \<open>The filter on the store of the example: the new list at address 4 holds address 1.\<close>

lemma example_store_filter:
  "filter_players_st literal_search 3 ''king'' example_store =
     Some (Inr 4, example_store\<lparr>lists := (lists example_store)(4 := [1]), next_addr := 5\<rparr>)"
proof -
  have c: "literal_search ''king'' [IGNORECASE] = Some (ci_prefix_at ''king'')"
    by (simp add: literal_search_def is_letter_def)
  have h: "3 < next_addr example_store"
    by (simp add: example_store_def)
  have g: "filter (\<lambda>r. list_ex (ci_prefix_at ''king'' (Player (dicts example_store r)))
        [0 ..< Suc (length (Player (dicts example_store r)))]) (lists example_store 3) = [1]"
    unfolding example_store_def by code_simp
  have f: "filter (\<lambda>r. \<exists>i\<le>length (Player (dicts example_store r)).
        ci_prefix_at ''king'' (Player (dicts example_store r)) i) (lists example_store 3) = [1]"
    using g unfolding scan_iff .
  show ?thesis
    unfolding filter_players_st_compiled [of literal_search "''king''" "ci_prefix_at ''king''", OF c h] f
    by (simp add: example_store_def)
qed

text \<open>
  Claim C10: for a list of players that is in the store, \<open>filter_players\<close> returns, and
  both \<open>filter_players\<close> and \<open>calculate_mvp\<close> leave every dictionary and every list
  of the store they started from as it was: they write to new lists only. The list that
  \<open>filter_players\<close> returns is a subsequence of its input, made of the same addresses,
  so of the original dictionaries. On the contents of the lists both functions compute
  what the functions on values above compute.
\<close>

theorem inputs_not_mutated:
  assumes "player_stats < next_addr s"
  shows "(\<exists>r s'. filter_players_st eng player_stats pat s = Some (r, s') \<and>
            unchanged s s' \<and>
            (\<forall>filtered. r = Inr filtered \<longrightarrow>
               subseq (lists s' filtered) (lists s player_stats)) \<and>
            map_sum id (contents s') r = filter_players eng (contents s player_stats) pat) \<and>
         (case calculate_mvp_st pf py_sum player_stats top_count s of
            (r, s') \<Rightarrow>
              unchanged s s' \<and>
              map_sum id
                (\<lambda>(tops, b, c, d). (contents s' tops, dicts s' b, dicts s' c, dicts s' d)) r
                = calculate_mvp pf py_sum (contents s player_stats) top_count)"
  using filter_players_st_frame [OF assms, of eng pat]
    calculate_mvp_st_frame [OF assms, of pf py_sum top_count]
  by (rule conjI)

text \<open>The store of the example, whose list is at address 3.\<close>

theorem inputs_not_mutated_witness:
  "3 < next_addr example_store \<and>
   (\<exists>r s'. filter_players_st literal_search 3 ''king'' example_store = Some (r, s') \<and>
      unchanged example_store s' \<and>
      (\<forall>filtered. r = Inr filtered \<longrightarrow>
         subseq (lists s' filtered) (lists example_store 3)) \<and>
      map_sum id (contents s') r =
        filter_players literal_search (contents example_store 3) ''king'') \<and>
   (case calculate_mvp_st digits_float sum_list 3 2 example_store of
      (r, s') \<Rightarrow>
        unchanged example_store s' \<and>
        map_sum id
          (\<lambda>(tops, b, c, d). (contents s' tops, dicts s' b, dicts s' c, dicts s' d)) r
          = calculate_mvp digits_float sum_list (contents example_store 3) 2)"
proof -
  have h: "3 < next_addr example_store"
    by (simp add: example_store_def)
  from h inputs_not_mutated [OF h, of literal_search "''king''" digits_float sum_list 2]
  show ?thesis by (rule conjI)
qed

end
